theory Spec2Isabelle
  imports Main
begin

section \<open>Time and the token rate limiter (email\_composer.py, TokenRateLimiter)\<close>

text \<open>
  A \<open>datetime\<close> is a count of microseconds, and the difference of two of them is a
  \<open>timedelta\<close>, again a count of microseconds, possibly negative: \<open>datetime.now()\<close> is
  the wall clock, which may be set back.

  A token amount is a Python \<open>int\<close>: the ceiling is read with \<open>int(...)\<close>, the counter
  starts at \<open>0\<close>, the default estimate is \<open>1500\<close> and the API reports
  \<open>usage.total_tokens\<close> as an integer. On integers Python's \<open>+\<close>, \<open>-\<close> and \<open>>=\<close> are
  exact, and that is what the limiter below computes. The estimate that
  \<open>generate_email_with_groq\<close> makes from the prompt is a \<open>float\<close>, and so is the
  counter once that estimate has been recorded for a response that reports no usage;
  on floats \<open>+\<close> and \<open>-\<close> round, and those amounts are not covered: what is stated below
  about amounts added or subtracted is stated for integer amounts.
\<close>

type_synonym datetime = int
type_synonym timedelta = int

definition minute :: timedelta where
  "minute = 60000000"

text \<open>
  The \<open>seconds\<close> attribute of a \<open>timedelta\<close>: Python keeps a delta as days, seconds
  and microseconds with \<open>0 \<le> seconds < 86400\<close>, so the attribute is the whole seconds
  of the delta within its day.
\<close>

definition td_seconds :: "timedelta \<Rightarrow> int" where
  "td_seconds d = (d div 1000000) mod 86400"

record limiter =
  tokens_per_minute :: int
  used_tokens :: int
  window_start :: datetime

definition init_limiter :: "int \<Rightarrow> datetime \<Rightarrow> limiter" where
  "init_limiter tpm now = \<lparr>tokens_per_minute = tpm, used_tokens = 0, window_start = now\<rparr>"

text \<open>
  \<open>request_permission\<close> reads the clock once (\<open>now\<close>), and returns the seconds to wait
  together with the limiter as it leaves it.
\<close>

definition request_permission :: "datetime \<Rightarrow> int \<Rightarrow> limiter \<Rightarrow> int \<times> limiter" where
  "request_permission now estimated_tokens s =
     (if now - window_start s > minute
      then (0, s\<lparr>used_tokens := 0, window_start := now\<rparr>)
      else
        let remaining_tokens = tokens_per_minute s - used_tokens s in
        if remaining_tokens \<ge> estimated_tokens then (0, s)
        else (60 - td_seconds (now - window_start s), s))"

text \<open>
  \<open>record_usage\<close> for an integer amount and an integer counter, where
  \<open>self.used_tokens += tokens_used\<close> is exact.
\<close>

definition record_usage :: "int \<Rightarrow> limiter \<Rightarrow> limiter" where
  "record_usage tokens_used s = s\<lparr>used_tokens := used_tokens s + tokens_used\<rparr>"

text \<open>The budget a permission check computes from the limiter: ceiling minus consumed.\<close>

definition remaining_budget :: "limiter \<Rightarrow> int" where
  "remaining_budget s = tokens_per_minute s - used_tokens s"







section \<open>Python strings\<close>

text \<open>
  A Python \<open>str\<close> is a sequence of Unicode code points, and \<open>len\<close>, \<open>find\<close> and the
  slices count code points. A literal of the source is written \<open>lit ''...''\<close>; the line
  break is the code point 10.
\<close>

type_synonym pystr = "nat list"

definition lit :: "string \<Rightarrow> pystr" where
  "lit s = map of_char s"

definition startswith :: "pystr \<Rightarrow> pystr \<Rightarrow> bool" where
  "startswith s p = (take (length p) s = p)"

text \<open>\<open>s.startswith((p1, p2, ...))\<close>: one of the prefixes of the tuple fits.\<close>

definition startswith_any :: "pystr \<Rightarrow> pystr list \<Rightarrow> bool" where
  "startswith_any s ps = list_ex (startswith s) ps"

text \<open>\<open>s.find(sub)\<close>: the lowest index at which \<open>sub\<close> starts in \<open>s\<close>, or \<open>-1\<close>.\<close>

fun find_from :: "nat \<Rightarrow> pystr \<Rightarrow> pystr \<Rightarrow> int" where
  "find_from i [] sub = (if sub = [] then int i else - 1)"
| "find_from i (c # cs) sub =
     (if startswith (c # cs) sub then int i else find_from (Suc i) cs sub)"

definition str_find :: "pystr \<Rightarrow> pystr \<Rightarrow> int" where
  "str_find s sub = find_from 0 s sub"

text \<open>\<open>sub in s\<close>.\<close>

definition contains :: "pystr \<Rightarrow> pystr \<Rightarrow> bool" where
  "contains sub s = (str_find s sub \<noteq> - 1)"

text \<open>
  The slices \<open>s[i:]\<close> and \<open>s[:i]\<close>: a negative index counts from the end, and an index
  out of range is clipped.
\<close>

definition slice_from :: "pystr \<Rightarrow> int \<Rightarrow> pystr" where
  "slice_from s i = drop (nat (if i < 0 then int (length s) + i else i)) s"

definition slice_to :: "pystr \<Rightarrow> int \<Rightarrow> pystr" where
  "slice_to s i = take (nat (if i < 0 then int (length s) + i else i)) s"

text \<open>
  \<open>s.split(sep, 1)\<close> for a separator that is not empty (the source's is a literal): at
  most one split, at the first place where \<open>sep\<close> stands.
\<close>

definition split_once :: "pystr \<Rightarrow> pystr \<Rightarrow> pystr list" where
  "split_once s sep =
     (let i = str_find s sep in
      if i = - 1 then [s]
      else [slice_to s i, slice_from s (i + int (length sep))])"

text \<open>The code points that \<open>str.strip()\<close> takes for white space.\<close>

definition isspace :: "nat \<Rightarrow> bool" where
  "isspace c =
     ((9 \<le> c \<and> c \<le> 13) \<or> (28 \<le> c \<and> c \<le> 32) \<or> c = 133 \<or> c = 160 \<or> c = 5760
      \<or> (8192 \<le> c \<and> c \<le> 8202) \<or> c = 8232 \<or> c = 8233 \<or> c = 8239 \<or> c = 8287
      \<or> c = 12288)"

definition strip :: "pystr \<Rightarrow> pystr" where
  "strip s = rev (dropWhile isspace (rev (dropWhile isspace s)))"

text \<open>
  \<open>str.lower()\<close> replaces each code point by its lowercase. The lowercase of one code
  point is written out for Basic Latin, for the Latin-1 Supplement and for U+0130
  (capital I with dot above), the one code point whose lowercase is two code points
  (\<open>i\<close> and the combining dot U+0307); any other code point is kept, so \<open>lower\<close> is
  Python's on texts of these code points.
\<close>

definition lower_cp :: "nat \<Rightarrow> pystr" where
  "lower_cp c =
     (if 65 \<le> c \<and> c \<le> 90 then [c + 32]
      else if 192 \<le> c \<and> c \<le> 222 \<and> c \<noteq> 215 then [c + 32]
      else if c = 304 then [105, 775]
      else [c])"

definition lower :: "pystr \<Rightarrow> pystr" where
  "lower s = concat (map lower_cp s)"

text \<open>\<open>str(n)\<close> for a natural number: its decimal digits.\<close>

fun str_nat :: "nat \<Rightarrow> pystr" where
  "str_nat n = (if n < 10 then [48 + n] else str_nat (n div 10) @ [48 + n mod 10])"

section \<open>Cleaning and parsing the generated text (email\_composer.py)\<close>

text \<open>
  The clean-up that \<open>generate_email_with_groq\<close> applies to the text of a successful
  response: when the text, in lowercase, begins with a lead-in phrase, the marker is
  looked up in the lowercase text and the text itself is cut at the index found.
\<close>

definition clean_up :: "pystr \<Rightarrow> pystr" where
  "clean_up email_content =
     (if startswith_any (lower email_content)
           [lit ''hier ist'', lit ''hier ist die'', lit ''das ist'', lit ''ich habe'']
      then
        (let subject_index = str_find (lower email_content) (lit ''betreff:'') in
         if subject_index \<noteq> - 1 then slice_from email_content subject_index
         else email_content)
      else email_content)"

definition parse_email_content :: "pystr \<Rightarrow> pystr \<times> pystr" where
  "parse_email_content email_content =
     (if contains (lit ''Betreff:'') email_content then
        (let parts = split_once email_content (lit ''Betreff:'') in
         if length parts > 1 then
           (let content = strip (parts ! 1);
                line_break_index = str_find content [10] in
            if line_break_index \<noteq> - 1
            then (strip (slice_to content line_break_index),
                  strip (slice_from content line_break_index))
            else (content, []))
         else ([], email_content))
      else ([], email_content))"

text \<open>
  The spec's words for the parsing, to compare with the code: the marker is located and
  what follows it is split at the first line break that follows; subject and body are
  the two parts, trimmed as the spec's example has them.
\<close>

definition split_at_first_line_break :: "pystr \<Rightarrow> pystr \<times> pystr" where
  "split_at_first_line_break email_content =
     (let i = str_find email_content (lit ''Betreff:'') in
      if i = - 1 then ([], email_content)
      else
        (let after = slice_from email_content (i + 8) in
         (strip (takeWhile (\<lambda>c. c \<noteq> 10) after), strip (dropWhile (\<lambda>c. c \<noteq> 10) after))))"

section \<open>The generation request loop (email\_composer.py, generate\_email\_with\_groq)\<close>

text \<open>
  A lead is a row of the CSV file: a dictionary from column names to texts.
  \<open>lead.get(key, '')\<close> is \<open>get_or_empty\<close>, and \<open>truthy_get\<close> is the test
  \<open>if lead.get(key)\<close>: the key is there and its text is not empty.
\<close>

type_synonym lead = "pystr \<rightharpoonup> pystr"

definition get_or_empty :: "lead \<Rightarrow> pystr \<Rightarrow> pystr" where
  "get_or_empty lead key = (case lead key of None \<Rightarrow> [] | Some v \<Rightarrow> v)"

definition truthy_get :: "lead \<Rightarrow> pystr \<Rightarrow> bool" where
  "truthy_get lead key = (case lead key of None \<Rightarrow> False | Some v \<Rightarrow> v \<noteq> [])"

text \<open>
  What the outside world does at one attempt. \<open>requests.post\<close> raises or returns a
  response. An exception is caught by the first handler when it is a
  \<open>RequestException\<close> and by the second one otherwise; it carries the text \<open>str(e)\<close>.
  A response has its status code, its \<open>Retry-After\<close> header (absent, read by \<open>int\<close>, or
  refused by \<open>int\<close> with an error text), the text of the error that \<open>raise_for_status\<close>
  raises for it when the status is an error, and what reading its JSON body gives:
  an exception of \<open>response.json()\<close> or of the look-ups in the result, a result with
  no entry under \<open>choices\<close>, or the content of the first choice together with
  \<open>usage.total_tokens\<close> when the result has it.
\<close>

datatype exn = RequestException pystr | OtherException pystr

datatype retry_after_header = No_header | Header_int int | Header_invalid pystr

datatype json_body = Body_raises exn | No_choices | Completion pystr "int option"

record response =
  status_code :: nat
  retry_after :: retry_after_header
  http_error :: pystr
  json :: json_body

datatype http = Post_raises exn | Response response

text \<open>What one call does that can be seen from outside, in order.\<close>

datatype event = Permission int | Sleep int | Post nat | Usage int

definition max_retries :: nat where
  "max_retries = 3"

text \<open>
  One pass of the \<open>for attempt in range(max_retries)\<close> loop either goes on to the next
  attempt after a sleep, or returns a text, with the token usage it recorded if it
  recorded one.
\<close>

datatype outcome = Retry int | Done pystr "int option"

text \<open>The two \<open>except\<close> clauses.\<close>

definition on_exception :: "nat \<Rightarrow> exn \<Rightarrow> outcome" where
  "on_exception attempt e =
     (case e of
        RequestException msg \<Rightarrow>
          if attempt < max_retries - 1 then Retry (5 * (int attempt + 1))
          else Done (lit ''API Error after '' @ str_nat max_retries @ lit '' attempts: '' @ msg) None
      | OtherException msg \<Rightarrow> Done (lit ''Error: '' @ msg) None)"

text \<open>
  \<open>time.sleep\<close> keeps the length as a 64-bit count of nanoseconds: a whole number of
  seconds beyond \<open>max_sleep\<close>, in either direction, is refused with an \<open>OverflowError\<close>,
  and a negative length within the range with a \<open>ValueError\<close>. The second handler
  catches both. The text of the \<open>OverflowError\<close> is CPython's; its versions differ in
  the name of the C type at its end.
\<close>

definition max_sleep :: int where
  "max_sleep = 9223372036"

definition sleep_raises :: "int \<Rightarrow> pystr option" where
  "sleep_raises secs =
     (if secs < - max_sleep \<or> max_sleep < secs
      then Some (lit ''timestamp too large to convert to C _PyTime_t'')
      else if secs < 0 then Some (lit ''sleep length must be non-negative'')
      else None)"

text \<open>The body of the \<open>try\<close>.\<close>

definition attempt_once :: "nat \<Rightarrow> lead \<Rightarrow> int \<Rightarrow> http \<Rightarrow> outcome" where
  "attempt_once attempt lead estimated_tokens h =
     (case h of
        Post_raises e \<Rightarrow> on_exception attempt e
      | Response r \<Rightarrow>
          if status_code r = 429 \<and> attempt < max_retries - 1 then
            (case retry_after r of
               No_header \<Rightarrow> Retry 60
             | Header_int wait_time \<Rightarrow>
                 (case sleep_raises wait_time of
                    Some msg \<Rightarrow> on_exception attempt (OtherException msg)
                  | None \<Rightarrow> Retry wait_time)
             | Header_invalid msg \<Rightarrow> on_exception attempt (OtherException msg))
          else if 400 \<le> status_code r \<and> status_code r < 600
          then on_exception attempt (RequestException (http_error r))
          else
            (case json r of
               Body_raises e \<Rightarrow> on_exception attempt e
             | No_choices \<Rightarrow>
                 Done (lit ''Error: Unable to generate email for '' @ get_or_empty lead (lit ''name''))
                   None
             | Completion email_content usage \<Rightarrow>
                 Done (clean_up email_content)
                   (Some (case usage of None \<Rightarrow> estimated_tokens | Some total_tokens \<Rightarrow> total_tokens))))"

text \<open>
  The loop: the first argument counts the passes that are left, the second is
  \<open>attempt\<close>. A loop that runs out without a \<open>return\<close> makes the function return
  \<open>None\<close>.
\<close>

fun attempts ::
  "nat \<Rightarrow> nat \<Rightarrow> lead \<Rightarrow> int \<Rightarrow> (nat \<Rightarrow> http) \<Rightarrow> limiter \<Rightarrow> pystr option \<times> limiter \<times> event list"
where
  "attempts 0 attempt lead estimated_tokens http s = (None, s, [])"
| "attempts (Suc n) attempt lead estimated_tokens http s =
     (case attempt_once attempt lead estimated_tokens (http attempt) of
        Retry wait_time \<Rightarrow>
          (case attempts n (Suc attempt) lead estimated_tokens http s of
             (r, s', evs) \<Rightarrow> (r, s', Post attempt # Sleep wait_time # evs))
      | Done text None \<Rightarrow> (Some text, s, [Post attempt])
      | Done text (Some total_tokens) \<Rightarrow>
          (Some text, record_usage total_tokens s, [Post attempt, Usage total_tokens]))"

text \<open>
  The whole function. \<open>estimated_tokens\<close> stands for the estimate that the source
  computes from the prompt (the number of its words times 1.3, plus 1024, in floating
  point; here an integer, as every token count), \<open>now\<close> is what the clock shows at the
  permission check and \<open>http attempt\<close> is what the request of each attempt meets. The
  result is the returned text, the limiter and the events in order.
\<close>

definition generate_email_with_groq ::
  "lead \<Rightarrow> int \<Rightarrow> datetime \<Rightarrow> (nat \<Rightarrow> http) \<Rightarrow> limiter \<Rightarrow> pystr option \<times> limiter \<times> event list"
where
  "generate_email_with_groq lead estimated_tokens now http rate_limiter =
     (case request_permission now estimated_tokens rate_limiter of
        (wait_time, s) \<Rightarrow>
          (case attempts max_retries 0 lead estimated_tokens http s of
             (r, s', evs) \<Rightarrow>
               (r, s', Permission estimated_tokens
                       # (if wait_time > 0 then [Sleep wait_time] else []) @ evs)))"

fun is_permission :: "event \<Rightarrow> bool" where
  "is_permission (Permission e) = True"
| "is_permission ev = False"

fun is_post :: "event \<Rightarrow> bool" where
  "is_post (Post attempt) = True"
| "is_post ev = False"

section \<open>The composer's main loop (email\_composer.py, main)\<close>

text \<open>
  One record of the JSON output file; \<open>sender\<close> and \<open>recipient\<close> are its \<open>from\<close> and
  \<open>to\<close>. The state of the composer is the rate limiter, the JSON output file (\<open>None\<close>
  when there is no file or it does not hold JSON, else the list it holds) and the text
  files that \<open>save_email\<close> has written, each as the lead's name, from which the file
  name is made, and the text. A JSON file that holds something other than a list, and
  a file system that refuses a write, are left out.
\<close>

record email_data =
  subject :: pystr
  sender :: pystr
  recipient :: pystr
  body :: pystr

record composer =
  rate_limiter :: limiter
  json_file :: "email_data list option"
  saved :: "(pystr \<times> pystr) list"

definition update_json_file :: "email_data \<Rightarrow> email_data list option \<Rightarrow> email_data list option \<times> nat" where
  "update_json_file data file =
     (let all_emails = (case file of None \<Rightarrow> [] | Some emails \<Rightarrow> emails) @ [data]
      in (Some all_emails, length all_emails))"

text \<open>
  One pass of the loop over the leads, for a lead together with the estimate, the clock
  and the responses its request meets. \<open>email_from\<close> is the sender's address of the
  configuration.
\<close>

definition process_lead ::
  "pystr \<Rightarrow> lead \<times> int \<times> datetime \<times> (nat \<Rightarrow> http) \<Rightarrow> composer \<Rightarrow> composer" where
  "process_lead email_from job st =
     (case job of (lead, estimated_tokens, now, http) \<Rightarrow>
        if \<not> truthy_get lead (lit ''name'') then st
        else if \<not> truthy_get lead (lit ''emails'') then st
        else
          (case generate_email_with_groq lead estimated_tokens now http (rate_limiter st) of
             (result, s, evs) \<Rightarrow>
               (let st1 = st\<lparr>rate_limiter := s\<rparr> in
                case result of
                  None \<Rightarrow> st1
                | Some email_content \<Rightarrow>
                    if email_content \<noteq> [] \<and> \<not> startswith email_content (lit ''Error:'')
                       \<and> \<not> startswith email_content (lit ''API Error:'')
                    then
                      (case parse_email_content email_content of
                         (subj, bod) \<Rightarrow>
                           st1\<lparr>saved := saved st1 @ [(get_or_empty lead (lit ''name''), email_content)],
                               json_file := fst (update_json_file
                                 \<lparr>subject = subj, sender = email_from,
                                  recipient = get_or_empty lead (lit ''emails''), body = bod\<rparr>
                                 (json_file st1))\<rparr>)
                    else st1)))"

fun process_leads ::
  "pystr \<Rightarrow> (lead \<times> int \<times> datetime \<times> (nat \<Rightarrow> http)) list \<Rightarrow> composer \<Rightarrow> composer" where
  "process_leads email_from [] st = st"
| "process_leads email_from (job # jobs) st = process_leads email_from jobs (process_lead email_from job st)"

section \<open>The pipeline orchestrator (app.py)\<close>

text \<open>
  What a stage's \<open>main()\<close> does: it returns a Python value or raises an exception
  (one that \<open>except Exception\<close> catches). The values are \<open>None\<close>, which a \<open>main\<close>
  without a \<open>return\<close> value gives, the truth values, integers and texts; \<open>py_bool\<close> is
  \<open>bool(result)\<close>.
\<close>

datatype pyval = PyNone | PyBool bool | PyInt int | PyStr pystr

fun py_bool :: "pyval \<Rightarrow> bool" where
  "py_bool PyNone = False"
| "py_bool (PyBool b) = b"
| "py_bool (PyInt i) = (i \<noteq> 0)"
| "py_bool (PyStr s) = (s \<noteq> [])"

datatype main_result = Returns pyval | Raises

text \<open>
  A loaded module has a callable \<open>main\<close> or has none. A stage is its name, whether its
  file exists, and what \<open>load_module\<close> gives for it: \<open>None\<close> when the module cannot be
  found or raises while it is loaded.
\<close>

datatype module = No_main | Has_main main_result

record stage =
  name :: pystr
  path_exists :: bool
  loaded :: "module option"

datatype app_event = Load pystr | Run pystr

definition run_module :: "module option \<Rightarrow> pystr \<Rightarrow> bool \<times> app_event list" where
  "run_module module module_name =
     (case module of
        None \<Rightarrow> (False, [])
      | Some No_main \<Rightarrow> (False, [])
      | Some (Has_main Raises) \<Rightarrow> (False, [Run module_name])
      | Some (Has_main (Returns result)) \<Rightarrow>
          (if result \<noteq> PyNone then py_bool result else True, [Run module_name]))"

text \<open>
  The loop of \<open>main\<close> in app.py over the stages: the overall result and the events in
  order.
\<close>

fun app_main :: "stage list \<Rightarrow> bool \<times> app_event list" where
  "app_main [] = (True, [])"
| "app_main (module_info # modules) =
     (if \<not> path_exists module_info then (False, [])
      else
        (case run_module (loaded module_info) (name module_info) of
           (success, evs) \<Rightarrow>
             if \<not> success then (False, Load (name module_info) # evs)
             else
               (case app_main modules of
                  (ok, rest) \<Rightarrow> (ok, Load (name module_info) # evs @ rest))))"

text \<open>The names of the stages whose \<open>main()\<close> was called, in order.\<close>

fun ran :: "app_event list \<Rightarrow> pystr list" where
  "ran [] = []"
| "ran (Run n # evs) = n # ran evs"
| "ran (Load n # evs) = ran evs"

text \<open>
  A stage succeeds: its file exists, its module loads and has a \<open>main\<close>, and \<open>main()\<close>
  returns \<open>None\<close> or a value that is true. \<open>main_called\<close>: the stage gets as far as the
  call of its \<open>main()\<close>.
\<close>

definition succeeds :: "stage \<Rightarrow> bool" where
  "succeeds st =
     (path_exists st \<and>
      (case loaded st of
         Some (Has_main (Returns result)) \<Rightarrow> result = PyNone \<or> py_bool result
       | _ \<Rightarrow> False))"

definition main_called :: "stage \<Rightarrow> bool" where
  "main_called st = (path_exists st \<and> (case loaded st of Some (Has_main r) \<Rightarrow> True | _ \<Rightarrow> False))"

section \<open>The rate limiter within a window\<close>

text \<open>
  C3. In a limiter state in which no more than one minute has elapsed since the window
  started, a request whose estimated cost is at most the remaining budget (ceiling minus
  consumed) is granted at once: \<open>request_permission\<close> returns 0 and leaves the limiter
  as it was.
\<close>

theorem request_permission_within_budget:
  assumes "now - window_start s \<le> minute"
    and "estimated_tokens \<le> remaining_budget s"
  shows "request_permission now estimated_tokens s = (0, s)"
  using assms by (simp add: request_permission_def remaining_budget_def)

theorem request_permission_within_budget_witness:
  "(30000000::int) - window_start (init_limiter 6000 0) \<le> minute
   \<and> 1500 \<le> remaining_budget (init_limiter 6000 0)
   \<and> request_permission 30000000 1500 (init_limiter 6000 0) = (0, init_limiter 6000 0)"
  using request_permission_within_budget [of 30000000 "init_limiter 6000 0" 1500]
  by (simp add: init_limiter_def minute_def remaining_budget_def)

lemma td_seconds_small:
  assumes "0 \<le> d" and "d \<le> minute"
  shows "td_seconds d = d div 1000000"
proof -
  have "0 \<le> d div 1000000" using assms(1) by simp
  moreover have "d div 1000000 \<le> 60" using assms(2) by (simp add: minute_def)
  ultimately show ?thesis by (simp add: td_seconds_def)
qed

text \<open>
  C4 as stated fails when exactly one minute has elapsed: the window is not reset (the
  test is a strict \<open>>\<close>), the budget is too small, and the wait returned is
  \<open>60 - 60 = 0\<close>, which is not strictly positive.
\<close>

theorem request_permission_wait_counterexample:
  "(60000000::int) - window_start (init_limiter 6000 0) \<le> minute
   \<and> remaining_budget (init_limiter 6000 0) < 7000
   \<and> fst (request_permission 60000000 7000 (init_limiter 6000 0)) = 0"
  by (simp add: request_permission_def init_limiter_def minute_def remaining_budget_def
      td_seconds_def)

text \<open>
  C4, amended. In a limiter state in which at least zero and strictly less than one
  minute has elapsed since the window started, a request whose estimated cost strictly
  exceeds the remaining budget gets a strictly positive wait of at most 60 seconds: 60
  minus the whole seconds elapsed. The limiter is left as it was.
\<close>

theorem request_permission_wait:
  assumes "0 \<le> now - window_start s"
    and "now - window_start s < minute"
    and "remaining_budget s < estimated_tokens"
  shows "fst (request_permission now estimated_tokens s) = 60 - (now - window_start s) div 1000000
    \<and> 0 < fst (request_permission now estimated_tokens s)
    \<and> fst (request_permission now estimated_tokens s) \<le> 60
    \<and> snd (request_permission now estimated_tokens s) = s"
proof -
  let ?d = "now - window_start s"
  have secs: "td_seconds ?d = ?d div 1000000"
    using assms(1,2) by (simp add: td_seconds_small)
  have lo: "0 \<le> ?d div 1000000" using assms(1) by simp
  have hi: "?d div 1000000 < 60" using assms(2) by (simp add: minute_def)
  have res: "request_permission now estimated_tokens s = (60 - ?d div 1000000, s)"
    using assms(2,3) secs by (simp add: request_permission_def remaining_budget_def)
  show ?thesis using res lo hi by simp
qed

theorem request_permission_wait_witness:
  "(0::int) \<le> 45500000 - window_start (init_limiter 6000 0)
   \<and> 45500000 - window_start (init_limiter 6000 0) < minute
   \<and> remaining_budget (init_limiter 6000 0) < 7000
   \<and> fst (request_permission 45500000 7000 (init_limiter 6000 0)) = 15"
  using request_permission_wait [of 45500000 "init_limiter 6000 0" 7000]
  by (simp add: init_limiter_def minute_def remaining_budget_def)

text \<open>
  When the clock has been set back behind the start of the window, the seconds of the
  negative difference count from the end of a day and the wait returned is negative.
\<close>

lemma request_permission_clock_set_back:
  "fst (request_permission (- 1) 7000 (init_limiter 6000 0)) = - 86339"
  by (simp add: request_permission_def init_limiter_def minute_def td_seconds_def)






text \<open>
  C6 as stated fails for a limiter whose window has run out: the permission check that
  follows \<open>record_usage\<close> resets the counter, so the remaining budget goes up (here from
  5900 to 6000) instead of going down by the 50 tokens recorded.
\<close>

theorem record_then_check_counterexample:
  "remaining_budget \<lparr>tokens_per_minute = 6000, used_tokens = 100, window_start = 0\<rparr>
     - remaining_budget (snd (request_permission 61000000 1500
         (record_usage 50 \<lparr>tokens_per_minute = 6000, used_tokens = 100, window_start = 0\<rparr>)))
   < 50"
  by (simp add: request_permission_def record_usage_def remaining_budget_def minute_def)

text \<open>
  C6, amended. For every limiter state with an integer ceiling and an integer counter
  and every integer cost \<open>x\<close> (as the token totals that the API reports are), when the
  permission check that follows \<open>record_usage x\<close> is made no more than one minute after
  the window started, the remaining budget (ceiling minus consumed) it works from is
  lower by exactly \<open>x\<close> than before \<open>record_usage\<close>, so never by less than \<open>x\<close>. Costs that
  are floats, as the estimate made from the prompt is, are left out: their sums and
  differences round.
\<close>

theorem record_then_check:
  assumes "now - window_start s \<le> minute"
  shows "remaining_budget s
      - remaining_budget (snd (request_permission now estimated_tokens (record_usage x s))) = x"
  using assms
  by (simp add: request_permission_def record_usage_def remaining_budget_def Let_def)

theorem record_then_check_witness:
  "(30000000::int) - window_start (init_limiter 6000 0) \<le> minute
   \<and> remaining_budget (init_limiter 6000 0)
      - remaining_budget (snd (request_permission 30000000 1500
          (record_usage 50 (init_limiter 6000 0)))) = 50"
  using record_then_check [of 30000000 "init_limiter 6000 0" 1500 50]
  by (simp add: init_limiter_def minute_def)

section \<open>The rate limiter after the window has run out\<close>

text \<open>
  C10. For every estimated cost, also one above the whole per-minute ceiling, a
  permission check made when more than one minute has elapsed since the window started
  returns 0 with no look at the budget, leaving the counter at 0; recording that cost
  then puts the counter at the cost itself, above the ceiling when the cost is.
\<close>

theorem request_permission_after_window:
  assumes "minute < now - window_start s"
  shows "fst (request_permission now e s) = 0
    \<and> used_tokens (snd (request_permission now e s)) = 0
    \<and> used_tokens (record_usage e (snd (request_permission now e s))) = e
    \<and> (tokens_per_minute s < e \<longrightarrow>
         tokens_per_minute (record_usage e (snd (request_permission now e s)))
           < used_tokens (record_usage e (snd (request_permission now e s))))"
  using assms by (simp add: request_permission_def record_usage_def)

theorem request_permission_after_window_witness:
  "minute < 61000000 - window_start \<lparr>tokens_per_minute = 6000, used_tokens = 5900, window_start = 0\<rparr>
   \<and> fst (request_permission 61000000 1000000
        \<lparr>tokens_per_minute = 6000, used_tokens = 5900, window_start = 0\<rparr>) = 0
   \<and> used_tokens (record_usage 1000000 (snd (request_permission 61000000 1000000
        \<lparr>tokens_per_minute = 6000, used_tokens = 5900, window_start = 0\<rparr>))) = 1000000"
  using request_permission_after_window
    [of 61000000 "\<lparr>tokens_per_minute = 6000, used_tokens = 5900, window_start = 0\<rparr>" 1000000]
  by (simp add: minute_def)

section \<open>Parsing and cleaning the generated text\<close>


lemma startswith_Nil: "startswith [] sub = (sub = [])"
  by (auto simp: startswith_def)

lemma find_from_first:
  "n \<le> length s \<Longrightarrow> startswith (drop n s) sub \<Longrightarrow>
   (\<forall>i<n. \<not> startswith (drop i s) sub) \<Longrightarrow> find_from k s sub = int (k + n)"
proof (induction s arbitrary: n k)
  case Nil
  then show ?case by (simp add: startswith_Nil)
next
  case (Cons c cs)
  show ?case
  proof (cases n)
    case 0
    with Cons.prems(2) show ?thesis by simp
  next
    case (Suc m)
    from Cons.prems(3) Suc have "\<not> startswith (drop 0 (c # cs)) sub" by blast
    then have first: "\<not> startswith (c # cs) sub" by simp
    have m: "m \<le> length cs" using Cons.prems(1) Suc by simp
    have at: "startswith (drop m cs) sub" using Cons.prems(2) Suc by simp
    have before: "\<forall>i<m. \<not> startswith (drop i cs) sub"
    proof (intro allI impI)
      fix i assume "i < m"
      then have "Suc i < n" using Suc by simp
      with Cons.prems(3) have "\<not> startswith (drop (Suc i) (c # cs)) sub" by blast
      then show "\<not> startswith (drop i cs) sub" by simp
    qed
    from Cons.IH [OF m at before] have "find_from (Suc k) cs sub = int (Suc k + m)" .
    with first Suc show ?thesis by simp
  qed
qed

lemma find_from_single:
  "find_from i s [c] =
     (if c \<in> set s then int (i + length (takeWhile (\<lambda>x. x \<noteq> c) s)) else - 1)"
  by (induction s arbitrary: i) (auto simp: startswith_def)

lemma find_from_absent:
  "(\<forall>i\<le>length s. \<not> startswith (drop i s) sub) \<Longrightarrow> find_from k s sub = - 1"
proof (induction s arbitrary: k)
  case Nil
  then show ?case by (simp add: startswith_Nil)
next
  case (Cons c cs)
  from Cons.prems have "\<not> startswith (drop 0 (c # cs)) sub" by blast
  then have first: "\<not> startswith (c # cs) sub" by simp
  have "\<forall>i\<le>length cs. \<not> startswith (drop i cs) sub"
  proof (intro allI impI)
    fix i assume "i \<le> length cs"
    then have "Suc i \<le> length (c # cs)" by simp
    with Cons.prems have "\<not> startswith (drop (Suc i) (c # cs)) sub" by blast
    then show "\<not> startswith (drop i cs) sub" by simp
  qed
  from Cons.IH [OF this] first show ?case by simp
qed

lemma split_line:
  "(let line_break_index = str_find content [10] in
      if line_break_index \<noteq> - 1
      then (strip (slice_to content line_break_index), strip (slice_from content line_break_index))
      else (content, []))
   = (if 10 \<in> set content
      then (strip (takeWhile (\<lambda>c. c \<noteq> 10) content), strip (dropWhile (\<lambda>c. c \<noteq> 10) content))
      else (content, []))"
  by (simp add: str_find_def find_from_single slice_to_def slice_from_def
      takeWhile_eq_take [symmetric] dropWhile_eq_drop [symmetric])

text \<open>
  C8, amended. \<open>parse_email_content\<close> locates the first \<open>Betreff:\<close>, strips the white
  space around what follows it, and splits that at its first line break: the subject is
  what stands before the line break and the body what stands from it on, both stripped;
  with no line break all of it is the subject and the body is empty. In particular
  the spec's example, \<open>Betreff: Hallo\<close>, a line break and the greeting (its u umlaut
  and sharp s are the code points 252 and 223), gives the subject \<open>Hallo\<close> and the
  greeting as the body: that is the witness.
\<close>

theorem parse_email_content_split:
  assumes "email_content = pre @ lit ''Betreff:'' @ rest"
    and "\<forall>i<length pre. \<not> startswith (drop i email_content) (lit ''Betreff:'')"
  shows "parse_email_content email_content =
     (let content = strip rest in
      if 10 \<in> set content
      then (strip (takeWhile (\<lambda>c. c \<noteq> 10) content), strip (dropWhile (\<lambda>c. c \<noteq> 10) content))
      else (content, []))"
proof -
  let ?m = "lit ''Betreff:''"
  have len: "length ?m = 8" by (simp add: lit_def)
  have "startswith (drop (length pre) email_content) ?m"
    using assms(1) by (simp add: startswith_def)
  moreover have "length pre \<le> length email_content" using assms(1) by simp
  ultimately have found: "str_find email_content ?m = int (length pre)"
    using find_from_first [of "length pre" email_content ?m 0] assms(2)
    by (simp add: str_find_def)
  then have inside: "contains ?m email_content" by (simp add: contains_def)
  have parts: "split_once email_content ?m = [pre, rest]"
    using found assms(1) by (simp add: split_once_def slice_to_def slice_from_def)
  show ?thesis
    unfolding parse_email_content_def
    using inside parts split_line [of "strip rest"] by (simp add: Let_def)
qed

lemmas str_defs = lit_def startswith_def startswith_any_def str_find_def contains_def
  slice_from_def slice_to_def split_once_def isspace_def strip_def lower_cp_def lower_def

theorem parse_email_content_split_witness:
  "lit ''Betreff: Hallo'' @ [10] @ lit ''Liebe Gr'' @ [252, 223] @ lit ''e''
     = [] @ lit ''Betreff:'' @ (lit '' Hallo'' @ [10] @ lit ''Liebe Gr'' @ [252, 223] @ lit ''e'')
   \<and> parse_email_content (lit ''Betreff: Hallo'' @ [10] @ lit ''Liebe Gr'' @ [252, 223] @ lit ''e'')
     = (lit ''Hallo'', lit ''Liebe Gr'' @ [252, 223] @ lit ''e'')"
  using parse_email_content_split [of
      "lit ''Betreff: Hallo'' @ [10] @ lit ''Liebe Gr'' @ [252, 223] @ lit ''e''" "[]"
      "lit '' Hallo'' @ [10] @ lit ''Liebe Gr'' @ [252, 223] @ lit ''e''"]
  by (simp add: lit_def strip_def isspace_def)

text \<open>
  C8 as stated fails when white space with a line break stands right after the marker:
  the first line break that follows the marker then comes before the subject, and
  splitting there gives an empty subject, while the code, which strips first, gives
  \<open>Hallo\<close> and \<open>Text\<close>.
\<close>

theorem parse_email_content_counterexample:
  "parse_email_content (lit ''Betreff:'' @ [10] @ lit ''Hallo'' @ [10] @ lit ''Text'')
     = (lit ''Hallo'', lit ''Text'')
   \<and> split_at_first_line_break (lit ''Betreff:'' @ [10] @ lit ''Hallo'' @ [10] @ lit ''Text'')
     = ([], lit ''Hallo'' @ [10] @ lit ''Text'')"
  by (simp add: parse_email_content_def split_at_first_line_break_def str_defs)

lemma parse_email_content_no_marker:
  "\<not> contains (lit ''Betreff:'') email_content \<Longrightarrow>
   parse_email_content email_content = ([], email_content)"
  by (simp add: parse_email_content_def)

lemma lower_cp_one: "c \<noteq> 304 \<Longrightarrow> length (lower_cp c) = 1"
  by (simp add: lower_cp_def)

lemma lower_drop:
  "304 \<notin> set s \<Longrightarrow> lower (drop i s) = drop i (lower s)"
proof (induction s arbitrary: i)
  case Nil
  show ?case by (simp add: lower_def)
next
  case (Cons c cs)
  then have c: "length (lower_cp c) = 1" and cs: "304 \<notin> set cs"
    by (simp_all add: lower_cp_one)
  show ?case
  proof (cases i)
    case 0
    then show ?thesis by simp
  next
    case (Suc j)
    from Cons.IH [OF cs, of j] have "lower (drop j cs) = drop j (lower cs)" .
    with Suc c show ?thesis by (simp add: lower_def)
  qed
qed

lemma lower_length: "304 \<notin> set s \<Longrightarrow> length (lower s) = length s"
proof (induction s)
  case Nil
  show ?case by (simp add: lower_def)
next
  case (Cons c cs)
  then have "length (lower_cp c) = 1" "length (lower cs) = length cs"
    by (simp_all add: lower_cp_one)
  then show ?case by (simp add: lower_def)
qed

lemma find_from_found:
  "find_from k s sub \<noteq> - 1 \<Longrightarrow>
   \<exists>n\<le>length s. find_from k s sub = int (k + n) \<and> startswith (drop n s) sub"
proof (induction s arbitrary: k)
  case Nil
  then show ?case by (auto simp: startswith_def split: if_splits)
next
  case (Cons c cs)
  show ?case
  proof (cases "startswith (c # cs) sub")
    case True
    then have "find_from k (c # cs) sub = int (k + 0) \<and> startswith (drop 0 (c # cs)) sub"
      by simp
    then show ?thesis by blast
  next
    case False
    with Cons.prems have "find_from (Suc k) cs sub \<noteq> - 1" by simp
    from Cons.IH [OF this] obtain n where n: "n \<le> length cs"
      "find_from (Suc k) cs sub = int (Suc k + n)" "startswith (drop n cs) sub"
      by blast
    with False have "Suc n \<le> length (c # cs)
        \<and> find_from k (c # cs) sub = int (k + Suc n)
        \<and> startswith (drop (Suc n) (c # cs)) sub"
      by simp
    then show ?thesis by blast
  qed
qed

text \<open>
  Where the clean-up does cut at the marker: in a text of code points below 256 the
  lowercase text has the positions of the text itself, so a text that begins with a
  lead-in phrase and holds the marker is cut where the marker first stands, and the
  cleaned text begins with it.
\<close>

lemma clean_up_cuts_at_marker:
  assumes "\<forall>c\<in>set email_content. c < 256"
    and "startswith_any (lower email_content)
           [lit ''hier ist'', lit ''hier ist die'', lit ''das ist'', lit ''ich habe'']"
    and "contains (lit ''betreff:'') (lower email_content)"
  shows "\<exists>pre. email_content = pre @ clean_up email_content
      \<and> int (length pre) = str_find (lower email_content) (lit ''betreff:'')
      \<and> startswith (lower (clean_up email_content)) (lit ''betreff:'')"
proof -
  let ?m = "lit ''betreff:''"
  have no: "304 \<notin> set email_content" using assms(1) by auto
  from assms(3) have "find_from 0 (lower email_content) ?m \<noteq> - 1"
    by (simp add: contains_def str_find_def)
  from find_from_found [OF this] obtain n where n: "n \<le> length (lower email_content)"
    "find_from 0 (lower email_content) ?m = int n" "startswith (drop n (lower email_content)) ?m"
    by auto
  have cut: "clean_up email_content = drop n email_content"
    using assms(2) n(2) by (simp add: clean_up_def str_find_def slice_from_def)
  have "email_content = take n email_content @ clean_up email_content"
    using cut by simp
  moreover have "int (length (take n email_content)) = str_find (lower email_content) ?m"
    using n(1,2) lower_length [OF no] by (simp add: str_find_def)
  moreover have "startswith (lower (clean_up email_content)) ?m"
    using cut n(3) lower_drop [OF no, of n] by simp
  ultimately show ?thesis by blast
qed

text \<open>The spec's example of the clean-up: the cleaned text starts at \<open>Betreff:\<close>.\<close>

lemma clean_up_example:
  "clean_up (lit ''Hier ist die E-Mail:'' @ [10] @ lit ''Betreff: Hallo'' @ [10] @ lit ''Text'')
     = lit ''Betreff: Hallo'' @ [10] @ lit ''Text''"
  by (simp add: clean_up_def str_defs)

text \<open>
  C7. The clean-up is meant to cut a response that begins with a lead-in phrase at the
  marker. The index is found in the lowercase text and used on the text itself, and
  the two differ in length when U+0130 stands before the marker: for a lead-in that
  names a business in Istanbul, written with U+0130 (code point 304), then a line break
  and \<open>Betreff: Hallo\<close>, the cut falls one code point late and the cleaned text starts
  at \<open>etreff:\<close>.
\<close>

theorem clean_up_dotted_capital_I:
  "clean_up (lit ''Hier ist die E-Mail f'' @ [252] @ lit ''r '' @ [304] @ lit ''stanbul Grill:''
       @ [10] @ lit ''Betreff: Hallo'' @ [10] @ lit ''Text'')
     = lit ''etreff: Hallo'' @ [10] @ lit ''Text''"
  by (simp add: clean_up_def str_defs)

section \<open>The rate limiter in the generation request loop\<close>


text \<open>
  The loop always returns a text: the last attempt never asks for another one, so the
  loop does not run out, and it issues at most \<open>max_retries\<close> requests.
\<close>

lemma attempt_once_last:
  "max_retries - 1 \<le> attempt \<Longrightarrow> attempt_once attempt lead estimated_tokens h \<noteq> Retry w"
  by (auto simp: attempt_once_def on_exception_def
      split: http.splits exn.splits json_body.splits retry_after_header.splits option.splits)

lemma attempts_return:
  "0 < n \<Longrightarrow> attempt + n = max_retries \<Longrightarrow>
   \<exists>content. fst (attempts n attempt lead estimated_tokens http s) = Some content"
proof (induction n arbitrary: attempt)
  case 0
  then show ?case by simp
next
  case (Suc n)
  show ?case
  proof (cases "attempt_once attempt lead estimated_tokens (http attempt)")
    case (Retry w)
    have "\<not> max_retries - 1 \<le> attempt"
      using Retry attempt_once_last [of attempt lead estimated_tokens "http attempt" w] by blast
    with Suc.prems have "0 < n" "Suc attempt + n = max_retries" by simp_all
    from Suc.IH [OF this] obtain content
      where c: "fst (attempts n (Suc attempt) lead estimated_tokens http s) = Some content"
      by blast
    obtain r s' evs where rest: "attempts n (Suc attempt) lead estimated_tokens http s = (r, s', evs)"
      by (cases "attempts n (Suc attempt) lead estimated_tokens http s")
    with Retry c show ?thesis by simp
  next
    case (Done content usage)
    then show ?thesis by (cases usage) simp_all
  qed
qed

lemma generate_email_with_groq_returns:
  "\<exists>content. fst (generate_email_with_groq lead estimated_tokens now http s) = Some content"
proof -
  obtain wait_time s1 where perm: "request_permission now estimated_tokens s = (wait_time, s1)"
    by (cases "request_permission now estimated_tokens s")
  obtain r s2 evs where loop: "attempts max_retries 0 lead estimated_tokens http s1 = (r, s2, evs)"
    by (cases "attempts max_retries 0 lead estimated_tokens http s1")
  from attempts_return [of max_retries 0 lead estimated_tokens http s1]
  obtain content where "fst (attempts max_retries 0 lead estimated_tokens http s1) = Some content"
    by (auto simp: max_retries_def)
  with perm loop show ?thesis by (simp add: generate_email_with_groq_def)
qed

lemma attempts_posts:
  "length (filter is_post (snd (snd (attempts n attempt lead estimated_tokens http s)))) \<le> n"
proof (induction n arbitrary: attempt)
  case 0
  show ?case by simp
next
  case (Suc n)
  show ?case
  proof (cases "attempt_once attempt lead estimated_tokens (http attempt)")
    case (Retry w)
    obtain r s' evs where rest: "attempts n (Suc attempt) lead estimated_tokens http s = (r, s', evs)"
      by (cases "attempts n (Suc attempt) lead estimated_tokens http s")
    with Retry Suc.IH [of "Suc attempt"] show ?thesis by simp
  next
    case (Done content usage)
    then show ?thesis by (cases usage) simp_all
  qed
qed

text \<open>
  A throttling response whose \<open>Retry-After\<close> is longer than \<open>time.sleep\<close> accepts ends
  the call after its one request, with the text of the error.
\<close>

lemma retry_after_too_long:
  "generate_email_with_groq Map.empty 1500 30000000
     (\<lambda>attempt. Response \<lparr>status_code = 429, retry_after = Header_int 10000000000,
                  http_error = [], json = No_choices\<rparr>)
     (init_limiter 6000 0)
   = (Some (lit ''Error: timestamp too large to convert to C _PyTime_t''),
      init_limiter 6000 0, [Permission 1500, Post 0])"
  by (simp add: generate_email_with_groq_def request_permission_def init_limiter_def minute_def
      max_retries_def numeral_3_eq_3 attempt_once_def on_exception_def sleep_raises_def
      max_sleep_def lit_def)

lemma attempts_no_permission:
  "filter is_permission (snd (snd (attempts n attempt lead estimated_tokens http s))) = []"
proof (induction n arbitrary: attempt)
  case 0
  show ?case by simp
next
  case (Suc n)
  show ?case
  proof (cases "attempt_once attempt lead estimated_tokens (http attempt)")
    case (Retry w)
    obtain r s' evs where rest: "attempts n (Suc attempt) lead estimated_tokens http s = (r, s', evs)"
      by (cases "attempts n (Suc attempt) lead estimated_tokens http s")
    from Suc.IH [of "Suc attempt"] rest have "filter is_permission evs = []" by simp
    with Retry rest show ?thesis by simp
  next
    case (Done content usage)
    then show ?thesis by (cases usage) simp_all
  qed
qed

text \<open>
  C2, amended. In one call of \<open>generate_email_with_groq\<close> the rate limiter's
  \<open>request_permission\<close> is called exactly once, before the first attempt to issue the
  HTTP request: the events of the call begin with the permission check and hold no
  other one, whatever the attempts meet. A retry after a throttling or transport
  failure is not preceded by a permission check.
\<close>

theorem permission_once_per_call:
  "filter is_permission (snd (snd (generate_email_with_groq lead estimated_tokens now http s)))
     = [Permission estimated_tokens]
   \<and> take 1 (snd (snd (generate_email_with_groq lead estimated_tokens now http s)))
     = [Permission estimated_tokens]"
proof -
  obtain wait_time s1 where perm: "request_permission now estimated_tokens s = (wait_time, s1)"
    by (cases "request_permission now estimated_tokens s")
  obtain r s2 evs where loop: "attempts max_retries 0 lead estimated_tokens http s1 = (r, s2, evs)"
    by (cases "attempts max_retries 0 lead estimated_tokens http s1")
  from attempts_no_permission [of max_retries 0 lead estimated_tokens http s1] loop
  have "filter is_permission evs = []" by simp
  with perm loop show ?thesis by (simp add: generate_email_with_groq_def)
qed

text \<open>
  C2 as stated fails as soon as there is a retry: with a transport failure at the
  first attempt and a good response at the second, the second request follows the
  back-off sleep directly, and the only permission check is the one before the first
  request.
\<close>

theorem permission_every_attempt_counterexample:
  "snd (snd (generate_email_with_groq Map.empty 1500 30000000
       (\<lambda>attempt. if attempt = 0 then Post_raises (RequestException (lit ''timed out''))
                   else Response \<lparr>status_code = 200, retry_after = No_header, http_error = [],
                          json = Completion (lit ''Betreff: Hallo'') (Some 1200)\<rparr>)
       (init_limiter 6000 0)))
   = [Permission 1500, Post 0, Sleep 5, Post 1, Usage 1200]"
  by (simp add: generate_email_with_groq_def request_permission_def init_limiter_def minute_def
      max_retries_def numeral_3_eq_3 attempt_once_def on_exception_def)

section \<open>Transport failures in the composer's main loop\<close>

text \<open>
  Three transport failures in a row use up the retries: the function returns the
  failure text that carries the last error, after sleeps of 5 and 10 seconds, and
  records no usage.
\<close>

lemma transport_failures_exhaust_retries:
  assumes "http 0 = Post_raises (RequestException m0)"
    and "http 1 = Post_raises (RequestException m1)"
    and "http 2 = Post_raises (RequestException m2)"
  shows "attempts max_retries 0 lead estimated_tokens http s
     = (Some (lit ''API Error after 3 attempts: '' @ m2), s,
        [Post 0, Sleep 5, Post 1, Sleep 10, Post 2])"
proof -
  have third: "attempts 1 2 lead estimated_tokens http s
      = (Some (lit ''API Error after 3 attempts: '' @ m2), s, [Post 2])"
    using assms(3) by (simp add: attempt_once_def on_exception_def max_retries_def lit_def)
  have second: "attempts 2 1 lead estimated_tokens http s
      = (Some (lit ''API Error after 3 attempts: '' @ m2), s, [Post 1, Sleep 10, Post 2])"
    using assms(2) third
    by (simp add: numeral_2_eq_2 attempt_once_def on_exception_def max_retries_def)
  show ?thesis
    using assms(1) second
    by (simp add: numeral_3_eq_3 numeral_2_eq_2 attempt_once_def on_exception_def max_retries_def)
qed

text \<open>
  The main loop holds back the texts that begin with \<open>Error:\<close> or \<open>API Error:\<close>. The
  failure text begins with \<open>API Error after\<close>, which is neither.
\<close>

lemma failure_text_not_filtered:
  "lit ''API Error after 3 attempts: '' @ m \<noteq> []
   \<and> \<not> startswith (lit ''API Error after 3 attempts: '' @ m) (lit ''Error:'')
   \<and> \<not> startswith (lit ''API Error after 3 attempts: '' @ m) (lit ''API Error:'')"
  by (simp add: startswith_def lit_def)

lemma transport_failures_append_record:
  assumes "truthy_get lead (lit ''name'')" and "truthy_get lead (lit ''emails'')"
    and "http 0 = Post_raises (RequestException m0)"
    and "http 1 = Post_raises (RequestException m1)"
    and "http 2 = Post_raises (RequestException m2)"
  shows "json_file (process_lead email_from (lead, estimated_tokens, now, http) st)
     = Some ((case json_file st of None \<Rightarrow> [] | Some emails \<Rightarrow> emails)
         @ [\<lparr>subject = fst (parse_email_content (lit ''API Error after 3 attempts: '' @ m2)),
             sender = email_from,
             recipient = get_or_empty lead (lit ''emails''),
             body = snd (parse_email_content (lit ''API Error after 3 attempts: '' @ m2))\<rparr>])"
proof -
  obtain wait_time s1 where perm: "request_permission now estimated_tokens (rate_limiter st) = (wait_time, s1)"
    by (cases "request_permission now estimated_tokens (rate_limiter st)")
  have gen: "generate_email_with_groq lead estimated_tokens now http (rate_limiter st)
      = (Some (lit ''API Error after 3 attempts: '' @ m2), s1,
         Permission estimated_tokens # (if wait_time > 0 then [Sleep wait_time] else [])
           @ [Post 0, Sleep 5, Post 1, Sleep 10, Post 2])"
    using perm transport_failures_exhaust_retries [OF assms(3-5), of lead estimated_tokens s1]
    by (simp add: generate_email_with_groq_def)
  obtain subj bod where parsed:
    "parse_email_content (lit ''API Error after 3 attempts: '' @ m2) = (subj, bod)"
    by (cases "parse_email_content (lit ''API Error after 3 attempts: '' @ m2)")
  show ?thesis
    unfolding process_lead_def
    using assms(1,2) gen parsed failure_text_not_filtered [of m2]
    by (simp add: update_json_file_def)
qed

text \<open>
  C1. For a lead with a name and an address whose three attempts all fail with a
  transport error, \<open>generate_email_with_groq\<close> returns the failure text carrying the
  last error, as the claim says; but the main loop does not leave the JSON output file
  as it was: the failure text passes the test on the prefixes and a record with an empty
  subject and the failure text as its body is appended for that lead.
\<close>

theorem transport_failures_are_saved:
  "json_file (process_leads (lit ''info@exposeprofi.de'')
       [([lit ''name'' \<mapsto> lit ''Grill'', lit ''emails'' \<mapsto> lit ''grill@example.de''],
         1500, 30000000, \<lambda>attempt. Post_raises (RequestException (lit ''timed out'')))]
       \<lparr>rate_limiter = init_limiter 6000 0, json_file = Some [], saved = []\<rparr>)
   = Some [\<lparr>subject = [], sender = lit ''info@exposeprofi.de'',
             recipient = lit ''grill@example.de'',
             body = lit ''API Error after 3 attempts: timed out''\<rparr>]"
proof -
  let ?lead = "[lit ''name'' \<mapsto> lit ''Grill'', lit ''emails'' \<mapsto> lit ''grill@example.de'']"
  have name: "truthy_get ?lead (lit ''name'')" by (simp add: truthy_get_def lit_def)
  have emails: "truthy_get ?lead (lit ''emails'')" by (simp add: truthy_get_def lit_def)
  have to: "get_or_empty ?lead (lit ''emails'') = lit ''grill@example.de''"
    by (simp add: get_or_empty_def lit_def)
  have parsed: "parse_email_content (lit ''API Error after 3 attempts: '' @ lit ''timed out'')
      = ([], lit ''API Error after 3 attempts: timed out'')"
    by (simp add: parse_email_content_def str_defs)
  let ?http = "\<lambda>attempt::nat. Post_raises (RequestException (lit ''timed out''))"
  have "json_file (process_lead (lit ''info@exposeprofi.de'') (?lead, 1500, 30000000, ?http)
        \<lparr>rate_limiter = init_limiter 6000 0, json_file = Some [], saved = []\<rparr>)
     = Some [\<lparr>subject = [], sender = lit ''info@exposeprofi.de'',
             recipient = lit ''grill@example.de'',
             body = lit ''API Error after 3 attempts: timed out''\<rparr>]"
    using transport_failures_append_record [where lead = ?lead and http = ?http
        and ?m0.0 = "lit ''timed out''" and ?m1.0 = "lit ''timed out''"
        and ?m2.0 = "lit ''timed out''", OF name emails refl refl refl]
      to parsed
    by (simp add: lit_def)
  then show ?thesis by simp
qed

section \<open>The orchestrator stops at the first failure\<close>

lemma ran_append: "ran (xs @ ys) = ran xs @ ran ys"
  by (induction xs rule: ran.induct) simp_all

lemma run_module_succeeds:
  "path_exists st \<Longrightarrow> fst (run_module (loaded st) (name st)) = succeeds st"
  by (auto simp: run_module_def succeeds_def split: option.splits module.splits main_result.splits)

lemma run_module_ran:
  "path_exists st \<Longrightarrow>
   ran (snd (run_module (loaded st) (name st))) = (if main_called st then [name st] else [])"
  by (auto simp: run_module_def main_called_def split: option.splits module.splits main_result.splits)

lemma succeeds_called: "succeeds st \<Longrightarrow> main_called st"
  by (auto simp: succeeds_def main_called_def split: option.splits module.splits main_result.splits)

text \<open>
  C9, amended. For every ordered list of stages the orchestrator runs the stages in
  order, stops at the first stage that fails and runs no stage after it, and returns
  overall success exactly when every stage succeeds. A stage fails when its file is
  missing, its module does not load or has no \<open>main\<close>, its \<open>main()\<close> raises, or
  \<open>main()\<close> returns a value other than \<open>None\<close> that is false; a \<open>main()\<close> that returns
  \<open>None\<close> succeeds. The stages whose \<open>main()\<close> is called are the successful ones before
  the first failure, and the failing one if it got as far as its \<open>main()\<close>.
\<close>

theorem app_main_stops_at_first_failure:
  "fst (app_main stages) = list_all succeeds stages
   \<and> ran (snd (app_main stages))
     = map name (takeWhile succeeds stages
         @ filter main_called (take 1 (dropWhile succeeds stages)))"
proof (induction stages)
  case Nil
  show ?case by simp
next
  case (Cons st stages)
  show ?case
  proof (cases "path_exists st")
    case False
    then have "\<not> succeeds st" "\<not> main_called st"
      by (simp_all add: succeeds_def main_called_def)
    with False show ?thesis by simp
  next
    case True
    obtain success evs where rm: "run_module (loaded st) (name st) = (success, evs)"
      by (cases "run_module (loaded st) (name st)")
    from run_module_succeeds [OF True] rm have s: "success = succeeds st" by simp
    from run_module_ran [OF True] rm
    have r: "ran evs = (if main_called st then [name st] else [])" by simp
    show ?thesis
    proof (cases "succeeds st")
      case False
      with True rm s r show ?thesis by simp
    next
      case ok: True
      obtain ok' rest where am: "app_main stages = (ok', rest)"
        by (cases "app_main stages")
      from ok have "main_called st" by (rule succeeds_called)
      with True rm s r ok am Cons.IH show ?thesis by (simp add: ran_append)
    qed
  qed
qed

text \<open>
  The spec's scenario: of the stages A (success), B (failure) and C, only A and B are
  run, and the overall result is failure.
\<close>

lemma app_main_scenario:
  "app_main
     [\<lparr>name = lit ''A'', path_exists = True, loaded = Some (Has_main (Returns (PyBool True)))\<rparr>,
      \<lparr>name = lit ''B'', path_exists = True, loaded = Some (Has_main (Returns (PyBool False)))\<rparr>,
      \<lparr>name = lit ''C'', path_exists = True, loaded = Some (Has_main (Returns (PyBool True)))\<rparr>]
   = (False, [Load (lit ''A''), Run (lit ''A''), Load (lit ''B''), Run (lit ''B'')])"
  by (simp add: run_module_def)

text \<open>
  C9 as stated counts every falsy result as a failure. \<open>None\<close> is falsy, but a stage
  whose \<open>main()\<close> returns \<open>None\<close> is taken as successful: the stage after it is run and
  the overall result is success.
\<close>

theorem app_main_none_counterexample:
  "\<not> py_bool PyNone
   \<and> app_main
     [\<lparr>name = lit ''A'', path_exists = True, loaded = Some (Has_main (Returns PyNone))\<rparr>,
      \<lparr>name = lit ''B'', path_exists = True, loaded = Some (Has_main (Returns (PyBool True)))\<rparr>]
   = (True, [Load (lit ''A''), Run (lit ''A''), Load (lit ''B''), Run (lit ''B'')])"
  by (simp add: run_module_def)

end
